theory Spec2Isabelle
  imports Main
begin

section \<open>Data model of \<^verbatim>\<open>src/circle.ts\<close>\<close>

text \<open>
  The interfaces of \<^verbatim>\<open>circle.ts\<close> become records. The two TypeScript enums are string
  enums: at run time a pipeline state and a workflow status are the strings the service
  sent, and nothing checks them against the enum. They are strings here too, and the
  enum members are abbreviations of their string values, so that a status outside the
  enum is a value of the model as it is a value of the program.
\<close>

datatype provider = GitHub | Bitbucket

record CirclePipelineError =
  error_type :: string
  message :: string

record CirclePipelineVCSInfo =
  provider_name :: provider
  revision :: string

type_synonym CirclePipelineState = string

abbreviation Created :: CirclePipelineState where "Created \<equiv> ''created''"
abbreviation Errored :: CirclePipelineState where "Errored \<equiv> ''errored''"
abbreviation SetupPending :: CirclePipelineState where "SetupPending \<equiv> ''setup-pending''"
abbreviation Setup :: CirclePipelineState where "Setup \<equiv> ''setup''"
abbreviation Pending :: CirclePipelineState where "Pending \<equiv> ''pending''"

record CirclePipelineItem =
  pipeline_id :: string
  errors :: "CirclePipelineError list"
  state :: CirclePipelineState
  vcs :: CirclePipelineVCSInfo

record CirclePipelines =
  pipeline_items :: "CirclePipelineItem list"

type_synonym CircleWorkflowStatus = string

abbreviation Success :: CircleWorkflowStatus where "Success \<equiv> ''success''"
abbreviation Running :: CircleWorkflowStatus where "Running \<equiv> ''running''"
abbreviation NotRun :: CircleWorkflowStatus where "NotRun \<equiv> ''not_run''"
abbreviation Failed :: CircleWorkflowStatus where "Failed \<equiv> ''failed''"
abbreviation Error :: CircleWorkflowStatus where "Error \<equiv> ''error''"
abbreviation Failing :: CircleWorkflowStatus where "Failing \<equiv> ''failing''"
abbreviation OnHold :: CircleWorkflowStatus where "OnHold \<equiv> ''on_hold''"
abbreviation Canceled :: CircleWorkflowStatus where "Canceled \<equiv> ''canceled''"
abbreviation Unauthorized :: CircleWorkflowStatus where "Unauthorized \<equiv> ''unauthorized''"

text \<open>The members of the enum \<^verbatim>\<open>CircleWorkflowStatus\<close>, in the order of their declaration.\<close>

definition CircleWorkflowStatus_members :: "CircleWorkflowStatus list" where
  "CircleWorkflowStatus_members =
     [Success, Running, NotRun, Failed, Error, Failing, OnHold, Canceled, Unauthorized]"

record CircleWorkflowItem =
  workflow_id :: string
  name :: string
  status :: CircleWorkflowStatus

record CircleWorkflows =
  workflow_items :: "CircleWorkflowItem list"

section \<open>\<^verbatim>\<open>shouldPreferWorkflow\<close>\<close>

text \<open>
  \<^verbatim>\<open>statusPriority\<close> is an object literal; \<^verbatim>\<open>statusPriority[s]\<close> reads the property
  named \<^verbatim>\<open>s\<close>. The literal's own properties are the nine entries written in the source.
  A key that is not an own property is looked up in the literal's prototype,
  \<^verbatim>\<open>Object.prototype\<close>, and only a key found in neither gives \<^verbatim>\<open>undefined\<close>.
  So the value read is a number, a function or object inherited from the prototype, or
  \<^verbatim>\<open>undefined\<close>.
\<close>

datatype jsvalue =
  Number nat
| Inherited string

text \<open>
  \<open>Inherited s\<close> is an inherited function or object; \<open>s\<close> is the string it converts to
  where an operator needs a primitive value.
\<close>

definition statusPriority :: "(CircleWorkflowStatus \<times> nat) list" where
  "statusPriority =
     [(Success, 5), (OnHold, 4), (Running, 3), (NotRun, 2), (Failed, 1), (Error, 1),
      (Failing, 1), (Canceled, 1), (Unauthorized, 0)]"

text \<open>
  The properties of \<^verbatim>\<open>Object.prototype\<close> under Node.js, each with the string its value
  converts to: eleven built-in functions, and the accessor \<^verbatim>\<open>__proto__\<close>, which returns
  the prototype object itself.
\<close>

definition Object_prototype :: "(string \<times> string) list" where
  "Object_prototype =
     [(''constructor'', ''function Object() { [native code] }''),
      (''__defineGetter__'', ''function __defineGetter__() { [native code] }''),
      (''__defineSetter__'', ''function __defineSetter__() { [native code] }''),
      (''hasOwnProperty'', ''function hasOwnProperty() { [native code] }''),
      (''__lookupGetter__'', ''function __lookupGetter__() { [native code] }''),
      (''__lookupSetter__'', ''function __lookupSetter__() { [native code] }''),
      (''isPrototypeOf'', ''function isPrototypeOf() { [native code] }''),
      (''propertyIsEnumerable'', ''function propertyIsEnumerable() { [native code] }''),
      (''toString'', ''function toString() { [native code] }''),
      (''valueOf'', ''function valueOf() { [native code] }''),
      (''__proto__'', ''[object Object]''),
      (''toLocaleString'', ''function toLocaleString() { [native code] }'')]"

text \<open>\<^verbatim>\<open>statusPriority[key]\<close>; \<open>None\<close> is \<^verbatim>\<open>undefined\<close>.\<close>

definition statusPriority_get :: "string \<Rightarrow> jsvalue option" where
  "statusPriority_get key =
     (case map_of statusPriority key of
        Some n \<Rightarrow> Some (Number n)
      | None \<Rightarrow> map_option Inherited (map_of Object_prototype key))"

text \<open>
  \<^verbatim>\<open>v || 0\<close>: \<^verbatim>\<open>undefined\<close> and the number 0 are falsy and give 0; every other number,
  and every function and object, is truthy and is the result.
\<close>

definition or_zero :: "jsvalue option \<Rightarrow> jsvalue" where
  "or_zero v =
     (case v of
        None \<Rightarrow> Number 0
      | Some (Number n) \<Rightarrow> if n = 0 then Number 0 else Number n
      | Some (Inherited s) \<Rightarrow> Inherited s)"

text \<open>
  \<^verbatim>\<open>a > b\<close> on strings compares code units from the left; a proper prefix is the
  smaller string.
\<close>

fun string_greater :: "string \<Rightarrow> string \<Rightarrow> bool" where
  "string_greater [] ys = False"
| "string_greater (x # xs) [] = True"
| "string_greater (x # xs) (y # ys) =
     (if x = y then string_greater xs ys else (of_char y :: nat) < of_char x)"

text \<open>
  \<^verbatim>\<open>a > b\<close>: two numbers compare as numbers. A function or object converts to its
  string; against a number that string converts to \<^verbatim>\<open>NaN\<close>, and every comparison with
  \<^verbatim>\<open>NaN\<close> is false; two strings compare as strings.
\<close>

fun greater_than :: "jsvalue \<Rightarrow> jsvalue \<Rightarrow> bool" where
  "greater_than (Number a) (Number b) = (b < a)"
| "greater_than (Number a) (Inherited t) = False"
| "greater_than (Inherited s) (Number b) = False"
| "greater_than (Inherited s) (Inherited t) = string_greater s t"

text \<open>\<^verbatim>\<open>statusPriority[s] || 0\<close>, the expression both priorities are computed by.\<close>

definition priority :: "CircleWorkflowStatus \<Rightarrow> jsvalue" where
  "priority s = or_zero (statusPriority_get s)"

definition shouldPreferWorkflow :: "CircleWorkflowItem \<Rightarrow> CircleWorkflowItem \<Rightarrow> bool" where
  "shouldPreferWorkflow candidate existing =
     (let candidatePriority = priority (status candidate);
          existingPriority = priority (status existing)
      in greater_than candidatePriority existingPriority)"

section \<open>Deduplication by workflow name\<close>

text \<open>
  A JavaScript \<^verbatim>\<open>Map\<close> keeps its keys in the order of their first insertion, and
  \<^verbatim>\<open>set\<close> on a key already there replaces the value where it stands. It is an
  association list with distinct keys.
\<close>

fun Map_get :: "('k \<times> 'v) list \<Rightarrow> 'k \<Rightarrow> 'v option" where
  "Map_get [] k = None"
| "Map_get ((k', v) # m) k = (if k' = k then Some v else Map_get m k)"

fun Map_set :: "('k \<times> 'v) list \<Rightarrow> 'k \<Rightarrow> 'v \<Rightarrow> ('k \<times> 'v) list" where
  "Map_set [] k v = [(k, v)]"
| "Map_set ((k', v') # m) k v = (if k' = k then (k, v) # m else (k', v') # Map_set m k v)"

definition Map_values :: "('k \<times> 'v) list \<Rightarrow> 'v list" where
  "Map_values m = map snd m"

text \<open>
  The loop over \<^verbatim>\<open>workflowData.items\<close> (lines 138 to 143), from the map built so far.
\<close>

fun workflowMap_loop ::
  "CircleWorkflowItem list \<Rightarrow> (string \<times> CircleWorkflowItem) list \<Rightarrow>
   (string \<times> CircleWorkflowItem) list"
where
  "workflowMap_loop [] workflowMap = workflowMap"
| "workflowMap_loop (workflow # items) workflowMap =
     (case Map_get workflowMap (name workflow) of
        None \<Rightarrow> workflowMap_loop items (Map_set workflowMap (name workflow) workflow)
      | Some existing \<Rightarrow>
          if shouldPreferWorkflow workflow existing
          then workflowMap_loop items (Map_set workflowMap (name workflow) workflow)
          else workflowMap_loop items workflowMap)"

definition uniqueWorkflows :: "CircleWorkflowItem list \<Rightarrow> CircleWorkflowItem list" where
  "uniqueWorkflows items = Map_values (workflowMap_loop items [])"

definition successfulWorkflows :: "CircleWorkflowItem list \<Rightarrow> CircleWorkflowItem list" where
  "successfulWorkflows items =
     filter (\<lambda>workflow. status workflow \<in> set [Success, OnHold]) (uniqueWorkflows items)"

text \<open>The value the callback returns for a pipeline whose workflows were fetched (line 152).\<close>

definition allWorkflowsPassed :: "CircleWorkflowItem list \<Rightarrow> bool" where
  "allWorkflowsPassed items =
     (0 < length (successfulWorkflows items) \<and>
      length (successfulWorkflows items) = length (uniqueWorkflows items))"

section \<open>The environment: configuration and the HTTP service\<close>

text \<open>
  Everything the program throws is an \<^verbatim>\<open>Error\<close> object with a message; the handler of
  \<^verbatim>\<open>getLastSuccessfulBuildRevisionOnBranch\<close> reads nothing else of it.
\<close>

datatype exception = Exception string

text \<open>
  \<^verbatim>\<open>requireEnv\<close> is imported from \<^verbatim>\<open>./env\<close> and \<^verbatim>\<open>axios\<close> is a library: both are
  parameters. A call returns a value or throws. \<^verbatim>\<open>axios.get\<close> is given the URL, the
  \<^verbatim>\<open>Circle-Token\<close> header and, for the pipeline list, the \<^verbatim>\<open>branch\<close> parameter. \<open>Inr\<close>
  is a response whose data has the declared shape. \<open>Inl\<close> is every other outcome, each
  of which makes the code that awaits and reads the response throw inside the \<^verbatim>\<open>try\<close>
  block: a transport failure, a status that is not a success, a body that is not of the
  declared shape. The service answers a given request the same way throughout one
  resolution.
\<close>

record world =
  requireEnv :: "string \<Rightarrow> exception + string"
  axios_get_pipelines :: "string \<Rightarrow> string \<Rightarrow> string \<Rightarrow> exception + CirclePipelines"
  axios_get_workflows :: "string \<Rightarrow> string \<Rightarrow> exception + CircleWorkflows"

text \<open>What a run does that can be seen from outside, in the order it happens.\<close>

datatype event =
  Get string
| ConsoleLog string

type_synonym trace = "event list"

definition CIRCLE_API_URL :: string where
  "CIRCLE_API_URL = ''https://circleci.com/api/v2''"

section \<open>\<^verbatim>\<open>find\<close>\<close>

text \<open>
  The callback is awaited for one element after the other. A callback that throws ends
  the loop with that exception; one that returns true ends it with the element.
\<close>

fun find_async ::
  "'i list \<Rightarrow> ('i \<Rightarrow> trace \<Rightarrow> (exception + bool) \<times> trace) \<Rightarrow> trace \<Rightarrow>
   (exception + 'i option) \<times> trace"
where
  "find_async [] asyncCallback t = (Inr None, t)"
| "find_async (element # items) asyncCallback t =
     (case asyncCallback element t of
        (Inl e, t') \<Rightarrow> (Inl e, t')
      | (Inr shouldReturn, t') \<Rightarrow>
          if shouldReturn then (Inr (Some element), t')
          else find_async items asyncCallback t')"

section \<open>The callback of the scan (lines 129 to 156)\<close>

definition workflow_url :: "CirclePipelineItem \<Rightarrow> string" where
  "workflow_url pipeline = CIRCLE_API_URL @ ''/pipeline/'' @ pipeline_id pipeline @ ''/workflow''"

definition pipelineCallback ::
  "world \<Rightarrow> string \<Rightarrow> CirclePipelineItem \<Rightarrow> trace \<Rightarrow> (exception + bool) \<times> trace"
where
  "pipelineCallback w headers pipeline t =
     (if state pipeline = Created then
        (case axios_get_workflows w (workflow_url pipeline) headers of
           Inl e \<Rightarrow> (Inl e, t @ [Get (workflow_url pipeline)])
         | Inr workflowData \<Rightarrow>
             (Inr (allWorkflowsPassed (workflow_items workflowData)),
              t @ [Get (workflow_url pipeline)]))
      else (Inr False, t))"

section \<open>The project slug\<close>

text \<open>
  \<^verbatim>\<open>/circleci\.com\/(.*\/.*\/.*)\//.exec(buildUrl)?.[1]\<close>. The dot matches every
  character but a line terminator: line feed, carriage return, and U+2028 and U+2029,
  which are the bytes E2 80 A8 and E2 80 A9 of a string held in UTF-8.
\<close>

definition at_line_terminator :: "string \<Rightarrow> bool" where
  "at_line_terminator s =
     (take 1 s = [CHR 0x0A] \<or> take 1 s = [CHR 0x0D] \<or>
      take 3 s = [CHR 0xE2, CHR 0x80, CHR 0xA8] \<or> take 3 s = [CHR 0xE2, CHR 0x80, CHR 0xA9])"

fun rest_of_line :: "string \<Rightarrow> string" where
  "rest_of_line [] = []"
| "rest_of_line (c # cs) = (if at_line_terminator (c # cs) then [] else c # rest_of_line cs)"

text \<open>
  A match that starts at the head of \<open>s\<close>: after \<^verbatim>\<open>circleci.com/\<close> the three greedy
  \<^verbatim>\<open>.*\<close> and the three slashes need at least three slashes before the end of the line,
  and the group then reaches to the last of them.
\<close>

definition match_here :: "string \<Rightarrow> string option" where
  "match_here s =
     (if take 13 s = ''circleci.com/'' then
        (let line = rest_of_line (drop 13 s) in
         if 3 \<le> length (filter (\<lambda>c. c = CHR ''/'') line)
         then Some (rev (tl (dropWhile (\<lambda>c. c \<noteq> CHR ''/'') (rev line))))
         else None)
      else None)"

text \<open>\<^verbatim>\<open>exec\<close> takes the leftmost position where a match starts.\<close>

fun slug_exec :: "string \<Rightarrow> string option" where
  "slug_exec [] = None"
| "slug_exec (c # cs) =
     (case match_here (c # cs) of Some g \<Rightarrow> Some g | None \<Rightarrow> slug_exec cs)"

section \<open>\<^verbatim>\<open>getLastSuccessfulBuildRevisionOnBranch\<close>\<close>

definition pipelines_url :: "string \<Rightarrow> string" where
  "pipelines_url slugAndBuildNumber =
     CIRCLE_API_URL @ ''/project/'' @ slugAndBuildNumber @ ''/pipeline''"

text \<open>
  The body of the \<^verbatim>\<open>try\<close> block; \<open>Inl\<close> is an exception that reaches the handler.
  \<^verbatim>\<open>if (slugAndBuildNumber)\<close> is false for \<^verbatim>\<open>undefined\<close> and for the empty string.
\<close>

definition try_block :: "world \<Rightarrow> string \<Rightarrow> trace \<Rightarrow> (exception + string option) \<times> trace" where
  "try_block w branch t =
     (case requireEnv w ''CIRCLE_BUILD_URL'' of
        Inl e \<Rightarrow> (Inl e, t)
      | Inr buildUrl \<Rightarrow>
          (let slugAndBuildNumber = slug_exec buildUrl in
           case requireEnv w ''CIRCLE_TOKEN'' of
             Inl e \<Rightarrow> (Inl e, t)
           | Inr circleToken \<Rightarrow>
               (case slugAndBuildNumber of
                  None \<Rightarrow> (Inr None, t)
                | Some slug \<Rightarrow>
                    if slug = [] then (Inr None, t)
                    else
                      (case axios_get_pipelines w (pipelines_url slug) circleToken branch of
                         Inl e \<Rightarrow> (Inl e, t @ [Get (pipelines_url slug)])
                       | Inr pipelineData \<Rightarrow>
                           (case find_async (pipeline_items pipelineData)
                                   (pipelineCallback w circleToken)
                                   (t @ [Get (pipelines_url slug)]) of
                              (Inl e, t') \<Rightarrow> (Inl e, t')
                            | (Inr lastSuccessfulBuild, t') \<Rightarrow>
                                (Inr (map_option (\<lambda>p. revision (vcs p)) lastSuccessfulBuild),
                                 t'))))))"

text \<open>
  The function with its handler: an exception is logged and the function returns
  \<^verbatim>\<open>undefined\<close>, which is \<open>None\<close>, as it does when no slug is found and when no pipeline
  is returned by the scan.
\<close>

definition getLastSuccessfulBuildRevisionOnBranch ::
  "world \<Rightarrow> string \<Rightarrow> trace \<Rightarrow> string option \<times> trace"
where
  "getLastSuccessfulBuildRevisionOnBranch w branch t =
     (case try_block w branch t of
        (Inl (Exception msg), t') \<Rightarrow>
          (None, t' @ [ConsoleLog (''Failed to call Circle API v2 with error: '' @ msg)])
      | (Inr result, t') \<Rightarrow> (result, t'))"

section \<open>Notions the properties are stated with\<close>

text \<open>
  The rank of a status as the specification words it (StatusRanker): the table, and 0
  for every status absent from it.
\<close>

definition rank :: "CircleWorkflowStatus \<Rightarrow> nat" where
  "rank s =
     (if s = Success then 5
      else if s = OnHold then 4
      else if s = Running then 3
      else if s = NotRun then 2
      else if s = Failed \<or> s = Error \<or> s = Failing \<or> s = Canceled then 1
      else 0)"

text \<open>A status is ranked when the priority the code computes for it is a number.\<close>

definition ranked :: "CircleWorkflowStatus \<Rightarrow> bool" where
  "ranked s = (case priority s of Number n \<Rightarrow> True | Inherited x \<Rightarrow> False)"

text \<open>The elements of a list in the order of their first occurrence.\<close>

fun first_occurrences :: "'a list \<Rightarrow> 'a list" where
  "first_occurrences [] = []"
| "first_occurrences (x # xs) = x # first_occurrences (removeAll x xs)"

text \<open>
  What the callback answers for a pipeline, and the requests a scan makes for a list of
  pipelines all of which it evaluates: one for each pipeline in state \<^verbatim>\<open>created\<close>.
\<close>

definition isGreen :: "world \<Rightarrow> string \<Rightarrow> CirclePipelineItem \<Rightarrow> exception + bool" where
  "isGreen w headers pipeline = fst (pipelineCallback w headers pipeline [])"

definition fetches :: "CirclePipelineItem list \<Rightarrow> trace" where
  "fetches ps = map (\<lambda>p. Get (workflow_url p)) (filter (\<lambda>p. state p = Created) ps)"

text \<open>
  The resolution gets as far as the scan: both variables are set, the build URL holds
  the slug, \<open>h\<close> is the token, and the service lists the pipelines \<open>ps\<close> for the branch.
\<close>

definition pipelines_listed ::
  "world \<Rightarrow> string \<Rightarrow> string \<Rightarrow> string \<Rightarrow> CirclePipelineItem list \<Rightarrow> bool"
where
  "pipelines_listed w branch slug h ps =
     (case requireEnv w ''CIRCLE_BUILD_URL'' of
        Inl e \<Rightarrow> False
      | Inr buildUrl \<Rightarrow>
          slug_exec buildUrl = Some slug \<and> requireEnv w ''CIRCLE_TOKEN'' = Inr h \<and>
          (case axios_get_pipelines w (pipelines_url slug) h branch of
             Inl e \<Rightarrow> False
           | Inr pipelineData \<Rightarrow> pipeline_items pipelineData = ps))"

text \<open>
  The entry the loop ends with for one name: \<open>cur\<close> is the entry stored so far, if any,
  and the list holds the workflows of that name still to come.
\<close>

fun pick :: "CircleWorkflowItem option \<Rightarrow> CircleWorkflowItem list \<Rightarrow> CircleWorkflowItem option" where
  "pick cur [] = cur"
| "pick None (w # ws) = pick (Some w) ws"
| "pick (Some e) (w # ws) = pick (if shouldPreferWorkflow w e then Some w else Some e) ws"

section \<open>A service to run the program against\<close>

definition wf :: "string \<Rightarrow> string \<Rightarrow> CircleWorkflowStatus \<Rightarrow> CircleWorkflowItem" where
  "wf i n s = \<lparr>workflow_id = i, name = n, status = s\<rparr>"

definition pl :: "string \<Rightarrow> CirclePipelineState \<Rightarrow> string \<Rightarrow> CirclePipelineItem" where
  "pl i st r =
     \<lparr>pipeline_id = i, errors = [], state = st,
      vcs = \<lparr>provider_name = GitHub, revision = r\<rparr>\<rparr>"

text \<open>
  Branch \<^verbatim>\<open>main\<close> has four pipelines, newest first: \<^verbatim>\<open>p4\<close> has a failed \<^verbatim>\<open>test\<close>
  workflow, \<^verbatim>\<open>p3\<close> is pending, \<^verbatim>\<open>p2\<close> passed after a rerun of \<^verbatim>\<open>build\<close>, and the
  workflows of \<^verbatim>\<open>p1\<close> cannot be fetched. Branch \<^verbatim>\<open>dev\<close> has \<^verbatim>\<open>p3\<close>, \<^verbatim>\<open>p1\<close> and
  \<^verbatim>\<open>p2\<close>, in this order. Branch \<^verbatim>\<open>old\<close> has \<^verbatim>\<open>p4\<close>, \<^verbatim>\<open>p3\<close> and \<^verbatim>\<open>p0\<close>, which has no
  workflow. Every other branch is unknown to the service.
\<close>

definition p0 :: CirclePipelineItem where "p0 = pl ''p0'' Created ''rev0''"
definition p1 :: CirclePipelineItem where "p1 = pl ''p1'' Created ''rev1''"
definition p2 :: CirclePipelineItem where "p2 = pl ''p2'' Created ''rev2''"
definition p3 :: CirclePipelineItem where "p3 = pl ''p3'' Pending ''rev3''"
definition p4 :: CirclePipelineItem where "p4 = pl ''p4'' Created ''rev4''"

definition workflows_p2 :: "CircleWorkflowItem list" where
  "workflows_p2 =
     [wf ''a'' ''build'' Failed, wf ''b'' ''deploy'' OnHold, wf ''c'' ''build'' Success,
      wf ''d'' ''build'' Success]"

definition workflows_p4 :: "CircleWorkflowItem list" where
  "workflows_p4 = [wf ''e'' ''build'' Success, wf ''f'' ''test'' Failed]"

definition service :: world where
  "service =
     \<lparr>requireEnv = (\<lambda>key.
        if key = ''CIRCLE_BUILD_URL'' then Inr ''https://circleci.com/gh/org/repo/123''
        else if key = ''CIRCLE_TOKEN'' then Inr ''secret''
        else Inl (Exception ''missing'')),
      axios_get_pipelines = (\<lambda>url token branch.
        if url = ''https://circleci.com/api/v2/project/gh/org/repo/pipeline'' \<and> token = ''secret''
        then
          if branch = ''main'' then Inr \<lparr>pipeline_items = [p4, p3, p2, p1]\<rparr>
          else if branch = ''dev'' then Inr \<lparr>pipeline_items = [p3, p1, p2]\<rparr>
          else if branch = ''old'' then Inr \<lparr>pipeline_items = [p4, p3, p0]\<rparr>
          else Inl (Exception ''404'')
        else Inl (Exception ''401'')),
      axios_get_workflows = (\<lambda>url token.
        if url = ''https://circleci.com/api/v2/pipeline/p0/workflow'' then Inr \<lparr>workflow_items = []\<rparr>
        else if url = ''https://circleci.com/api/v2/pipeline/p2/workflow''
        then Inr \<lparr>workflow_items = workflows_p2\<rparr>
        else if url = ''https://circleci.com/api/v2/pipeline/p4/workflow''
        then Inr \<lparr>workflow_items = workflows_p4\<rparr>
        else Inl (Exception ''timeout''))\<rparr>"

text \<open>The same service for a process with no \<^verbatim>\<open>CIRCLE_TOKEN\<close>.\<close>

definition service_no_token :: world where
  "service_no_token =
     service\<lparr>requireEnv := (\<lambda>key.
        if key = ''CIRCLE_BUILD_URL'' then Inr ''https://circleci.com/gh/org/repo/123''
        else Inl (Exception ''missing''))\<rparr>"

section \<open>The priority of a status\<close>

lemma priority_rank: "ranked s \<Longrightarrow> priority s = Number (rank s)"
  by (auto simp: ranked_def priority_def statusPriority_get_def statusPriority_def rank_def
      or_zero_def split: option.splits jsvalue.splits if_splits)

lemma ranked_iff: "ranked s \<longleftrightarrow> s \<notin> fst ` set Object_prototype"
  by (auto simp: ranked_def priority_def statusPriority_get_def statusPriority_def
      Object_prototype_def or_zero_def split: option.splits jsvalue.splits if_splits)

lemma members_ranked: "s \<in> set CircleWorkflowStatus_members \<Longrightarrow> ranked s"
  by (auto simp: CircleWorkflowStatus_members_def ranked_def priority_def
      statusPriority_get_def statusPriority_def or_zero_def)

lemma prefer_ranked:
  "ranked (status c) \<Longrightarrow> ranked (status e) \<Longrightarrow>
   shouldPreferWorkflow c e = (rank (status e) < rank (status c))"
  by (simp add: shouldPreferWorkflow_def priority_rank)

lemma string_greater_irrefl: "\<not> string_greater s s"
  by (induction s) auto

lemma greater_than_irrefl: "\<not> greater_than v v"
  by (cases v) (simp_all add: string_greater_irrefl)

section \<open>The map\<close>

lemma Map_get_set: "Map_get (Map_set m k v) k' = (if k = k' then Some v else Map_get m k')"
  by (induction m) auto

lemma Map_get_None_iff: "Map_get m k = None \<longleftrightarrow> k \<notin> fst ` set m"
  by (induction m) (auto split: if_splits)

lemma keys_Map_set:
  "map fst (Map_set m k v) = (if k \<in> fst ` set m then map fst m else map fst m @ [k])"
  by (induction m) (auto split: if_splits simp: rev_image_eqI)

lemma dom_Map_set: "fst ` set (Map_set m k v) = insert k (fst ` set m)"
proof -
  have "set (map fst (Map_set m k v)) = insert k (set (map fst m))"
    unfolding keys_Map_set by auto
  then show ?thesis by simp
qed

lemma set_Map_set: "set (Map_set m k v) \<subseteq> insert (k, v) (set m)"
  by (induction m) (auto split: if_splits)

lemma Map_set_new: "k \<notin> fst ` set m \<Longrightarrow> Map_set m k v = m @ [(k, v)]"
  by (induction m) auto

lemma Map_get_distinct: "distinct (map fst m) \<Longrightarrow> (k, v) \<in> set m \<Longrightarrow> Map_get m k = Some v"
  by (induction m) (auto simp: rev_image_eqI)

section \<open>The loop\<close>

lemma set_first_occurrences: "set (first_occurrences xs) = set xs"
  by (induction xs rule: first_occurrences.induct) auto

lemma distinct_first_occurrences: "distinct (first_occurrences xs)"
  by (induction xs rule: first_occurrences.induct) (auto simp: set_first_occurrences)

lemma removeAll_filter_notin:
  "removeAll k (filter (\<lambda>n. n \<notin> A) ns) = filter (\<lambda>n. n \<notin> insert k A) ns"
  by (induction ns) auto

text \<open>The keys of the map: those it had, then the new names as they first come.\<close>

lemma keys_loop:
  "map fst (workflowMap_loop xs m) =
     map fst m @ first_occurrences (filter (\<lambda>n. n \<notin> fst ` set m) (map name xs))"
proof (induction xs arbitrary: m)
  case Nil
  then show ?case by simp
next
  case (Cons w xs)
  show ?case
  proof (cases "Map_get m (name w)")
    case None
    then have "name w \<notin> fst ` set m" by (simp add: Map_get_None_iff)
    then show ?thesis
      using None Cons.IH [of "Map_set m (name w) w"]
      by (simp add: dom_Map_set keys_Map_set removeAll_filter_notin)
  next
    case (Some e)
    then have isin: "name w \<in> fst ` set m" using Map_get_None_iff [of m "name w"] by simp
    then have "insert (name w) (fst ` set m) = fst ` set m" by auto
    then show ?thesis
      using Some isin Cons.IH [of "Map_set m (name w) w"] Cons.IH [of m]
      by (simp add: dom_Map_set keys_Map_set)
  qed
qed

lemma keys_unique: "map fst (workflowMap_loop xs []) = first_occurrences (map name xs)"
  using keys_loop [of xs "[]"] by simp

text \<open>The value under one key depends on the workflows of that name alone.\<close>

lemma get_loop:
  "Map_get (workflowMap_loop xs m) k = pick (Map_get m k) (filter (\<lambda>w. name w = k) xs)"
proof (induction xs arbitrary: m)
  case Nil
  show ?case by simp
next
  case (Cons w xs)
  show ?case
  proof (cases "Map_get m (name w)")
    case None
    then show ?thesis
      using Cons.IH [of "Map_set m (name w) w"] Cons.IH [of m]
      by (auto simp: Map_get_set)
  next
    case (Some e)
    then show ?thesis
      using Cons.IH [of "Map_set m (name w) w"] Cons.IH [of m]
      by (auto simp: Map_get_set)
  qed
qed

text \<open>Every entry was in the map at the start or is an input workflow under its own name.\<close>

lemma entries_loop:
  "(k, v) \<in> set (workflowMap_loop xs m) \<Longrightarrow> (k, v) \<in> set m \<or> (v \<in> set xs \<and> name v = k)"
proof (induction xs arbitrary: m)
  case Nil
  then show ?case by simp
next
  case (Cons w xs)
  have step: "(k, v) \<in> set (Map_set m (name w) w) \<Longrightarrow> (k, v) \<in> set m \<or> (v = w \<and> name v = k)"
    using set_Map_set [of m "name w" w] by auto
  from Cons.prems have
    "(k, v) \<in> set (workflowMap_loop xs (Map_set m (name w) w)) \<or>
     (k, v) \<in> set (workflowMap_loop xs m)"
    by (auto split: option.splits if_splits)
  then show ?case
    using Cons.IH [of "Map_set m (name w) w"] Cons.IH [of m] step by auto
qed

lemma names_unique: "map name (uniqueWorkflows xs) = first_occurrences (map name xs)"
proof -
  have "map name (map snd (workflowMap_loop xs [])) = map fst (workflowMap_loop xs [])"
    using entries_loop [of _ _ xs "[]"] by auto
  then show ?thesis by (simp add: uniqueWorkflows_def Map_values_def keys_unique)
qed

lemma unique_subset: "set (uniqueWorkflows xs) \<subseteq> set xs"
  using entries_loop [of _ _ xs "[]"] by (auto simp: uniqueWorkflows_def Map_values_def)

lemma unique_Nil_iff: "uniqueWorkflows xs = [] \<longleftrightarrow> xs = []"
proof -
  have "uniqueWorkflows xs = [] \<longleftrightarrow> map name (uniqueWorkflows xs) = []" by simp
  also have "\<dots> \<longleftrightarrow> xs = []" by (cases xs) (simp_all add: names_unique)
  finally show ?thesis .
qed

lemma unique_pick:
  assumes "u \<in> set (uniqueWorkflows xs)"
  shows "pick None (filter (\<lambda>w. name w = name u) xs) = Some u"
proof -
  from assms obtain k where in_map: "(k, u) \<in> set (workflowMap_loop xs [])"
    by (auto simp: uniqueWorkflows_def Map_values_def)
  then have k: "k = name u" using entries_loop [of k u xs "[]"] by simp
  have "distinct (map fst (workflowMap_loop xs []))"
    by (simp add: keys_unique distinct_first_occurrences)
  then have "Map_get (workflowMap_loop xs []) (name u) = Some u"
    using in_map k by (simp add: Map_get_distinct)
  then show ?thesis by (simp add: get_loop)
qed

section \<open>The entry kept for a name\<close>

lemma pick_max:
  "pick (Some e) ws = Some u \<Longrightarrow> ranked (status e) \<Longrightarrow> \<forall>w\<in>set ws. ranked (status w) \<Longrightarrow>
   rank (status e) \<le> rank (status u) \<and> (\<forall>w\<in>set ws. rank (status w) \<le> rank (status u))"
proof (induction ws arbitrary: e)
  case Nil
  then show ?case by simp
next
  case (Cons w ws)
  show ?case
  proof (cases "shouldPreferWorkflow w e")
    case True
    then have "rank (status e) < rank (status w)"
      using Cons.prems by (simp add: prefer_ranked)
    moreover have
      "rank (status w) \<le> rank (status u) \<and> (\<forall>x\<in>set ws. rank (status x) \<le> rank (status u))"
      using Cons.IH [of w] Cons.prems True by simp
    ultimately show ?thesis by auto
  next
    case False
    then have "rank (status w) \<le> rank (status e)"
      using Cons.prems by (simp add: prefer_ranked)
    moreover have
      "rank (status e) \<le> rank (status u) \<and> (\<forall>x\<in>set ws. rank (status x) \<le> rank (status u))"
      using Cons.IH [of e] Cons.prems False by simp
    ultimately show ?thesis by auto
  qed
qed

lemma pick_first:
  "pick (Some e) ws = Some u \<Longrightarrow> ranked (status e) \<Longrightarrow> \<forall>w\<in>set ws. ranked (status w) \<Longrightarrow>
   List.find (\<lambda>w. rank (status w) = rank (status u)) (e # ws) = Some u"
proof (induction ws arbitrary: e)
  case Nil
  then show ?case by simp
next
  case (Cons w ws)
  show ?case
  proof (cases "shouldPreferWorkflow w e")
    case True
    then have lt: "rank (status e) < rank (status w)"
      using Cons.prems by (simp add: prefer_ranked)
    have p: "pick (Some w) ws = Some u" using Cons.prems True by simp
    have "rank (status w) \<le> rank (status u)"
      using pick_max [OF p] Cons.prems by simp
    with lt have "rank (status e) \<noteq> rank (status u)" by simp
    then show ?thesis using Cons.IH [OF p] Cons.prems by simp
  next
    case False
    then have le: "rank (status w) \<le> rank (status e)"
      using Cons.prems by (simp add: prefer_ranked)
    have p: "pick (Some e) ws = Some u" using Cons.prems False by simp
    have ih: "List.find (\<lambda>w. rank (status w) = rank (status u)) (e # ws) = Some u"
      using Cons.IH [OF p] Cons.prems by simp
    have "rank (status e) \<le> rank (status u)"
      using pick_max [OF p] Cons.prems by simp
    with le ih show ?thesis by (auto split: if_splits)
  qed
qed

lemma find_filter: "List.find P (filter Q xs) = List.find (\<lambda>x. Q x \<and> P x) xs"
  by (induction xs) auto

text \<open>On a list of distinct names the loop only appends.\<close>

lemma loop_distinct:
  "distinct (map name ys) \<Longrightarrow> name ` set ys \<inter> fst ` set m = {} \<Longrightarrow>
   workflowMap_loop ys m = m @ map (\<lambda>w. (name w, w)) ys"
proof (induction ys arbitrary: m)
  case Nil
  then show ?case by simp
next
  case (Cons w ys)
  have notin: "name w \<notin> fst ` set m" using Cons.prems by auto
  then have none: "Map_get m (name w) = None" by (simp add: Map_get_None_iff)
  have "name ` set ys \<inter> fst ` set (m @ [(name w, w)]) = {}"
    using Cons.prems by auto
  then have
    "workflowMap_loop ys (m @ [(name w, w)]) = (m @ [(name w, w)]) @ map (\<lambda>w. (name w, w)) ys"
    using Cons.IH [of "m @ [(name w, w)]"] Cons.prems by simp
  then show ?case using none notin by (simp add: Map_set_new)
qed

lemma unique_distinct: "distinct (map name ys) \<Longrightarrow> uniqueWorkflows ys = ys"
  by (simp add: uniqueWorkflows_def Map_values_def loop_distinct comp_def)

text \<open>Two workflows of one name: the second replaces the first exactly when it is preferred.\<close>

lemma unique_two_same_name:
  "name a = name b \<Longrightarrow> uniqueWorkflows [a, b] = (if shouldPreferWorkflow b a then [b] else [a])"
  by (simp add: uniqueWorkflows_def Map_values_def)

lemma unique_max:
  assumes r: "\<forall>w\<in>set xs. ranked (status w)"
    and u: "u \<in> set (uniqueWorkflows xs)"
    and w: "w \<in> set xs" "name w = name u"
  shows "rank (status w) \<le> rank (status u)"
proof -
  let ?ws = "filter (\<lambda>w. name w = name u) xs"
  have p: "pick None ?ws = Some u" using u by (rule unique_pick)
  then obtain e ws where ews: "?ws = e # ws" by (cases ?ws) auto
  have in_xs: "set ?ws \<subseteq> set xs" by auto
  have re: "ranked (status e)" and rws: "\<forall>x\<in>set ws. ranked (status x)"
    using r in_xs ews by auto
  have "pick (Some e) ws = Some u" using p ews by simp
  then have "rank (status e) \<le> rank (status u) \<and> (\<forall>x\<in>set ws. rank (status x) \<le> rank (status u))"
    using re rws by (rule pick_max)
  moreover have "w \<in> set (e # ws)" using w ews [symmetric] by simp
  ultimately show ?thesis by auto
qed

lemma unique_first:
  assumes r: "\<forall>w\<in>set xs. ranked (status w)"
    and u: "u \<in> set (uniqueWorkflows xs)"
  shows "List.find (\<lambda>w. name w = name u \<and> rank (status w) = rank (status u)) xs = Some u"
proof -
  let ?ws = "filter (\<lambda>w. name w = name u) xs"
  have p: "pick None ?ws = Some u" using u by (rule unique_pick)
  then obtain e ws where ews: "?ws = e # ws" by (cases ?ws) auto
  have in_xs: "set ?ws \<subseteq> set xs" by auto
  have re: "ranked (status e)" and rws: "\<forall>x\<in>set ws. ranked (status x)"
    using r in_xs ews by auto
  have "pick (Some e) ws = Some u" using p ews by simp
  then have "List.find (\<lambda>w. rank (status w) = rank (status u)) (e # ws) = Some u"
    using re rws by (rule pick_first)
  then have "List.find (\<lambda>w. rank (status w) = rank (status u)) ?ws = Some u"
    by (simp only: ews)
  then show ?thesis by (simp only: find_filter)
qed

text \<open>The equations that evaluate deduplication on the workflows of the example service.\<close>

lemmas eval_defs =
  workflows_p2_def workflows_p4_def uniqueWorkflows_def Map_values_def wf_def
  shouldPreferWorkflow_def priority_def statusPriority_get_def statusPriority_def
  Object_prototype_def or_zero_def ranked_def rank_def CircleWorkflowStatus_members_def

section \<open>Claims about deduplication\<close>

lemma prefer_same_status: "status c = status e \<Longrightarrow> \<not> shouldPreferWorkflow c e"
  by (simp add: shouldPreferWorkflow_def greater_than_irrefl)

text \<open>
  C4. The property: for every list of workflows the deduplicated list has one entry for
  each name, and that entry has the greatest rank among the workflows of its name; of
  two workflows of one name the one of strictly greater rank is the output, whichever
  comes first. The code does not do this when a status names a property of
  \<^verbatim>\<open>Object.prototype\<close>. The status \<^verbatim>\<open>constructor\<close> is absent from the table and so has
  rank 0, and \<^verbatim>\<open>success\<close> has rank 5; yet of two workflows named \<^verbatim>\<open>build\<close>, the first
  with status \<^verbatim>\<open>constructor\<close> and the second with \<^verbatim>\<open>success\<close>, the code keeps the first,
  and in the other order it keeps \<^verbatim>\<open>success\<close>: the output depends on the order and is
  not the workflow of greatest rank. \<^verbatim>\<open>statusPriority['constructor']\<close> is the inherited
  function \<^verbatim>\<open>Object\<close>, the default \<^verbatim>\<open>|| 0\<close> does not apply to it, and every
  comparison of it with a number is false.
\<close>

theorem dedupe_keeps_lower_rank_at_inherited_status:
  "rank ''constructor'' = 0 \<and> rank Success = 5 \<and>
   uniqueWorkflows [wf ''1'' ''build'' ''constructor'', wf ''2'' ''build'' Success]
     = [wf ''1'' ''build'' ''constructor''] \<and>
   uniqueWorkflows [wf ''2'' ''build'' Success, wf ''1'' ''build'' ''constructor'']
     = [wf ''2'' ''build'' Success]"
  by (simp add: eval_defs)

text \<open>
  C5. The property: when several workflows of one name share the greatest rank, the
  earliest is kept; the stored entry is replaced only on a strictly greater rank. The
  code does not do this when both statuses name properties of \<^verbatim>\<open>Object.prototype\<close>.
  \<^verbatim>\<open>constructor\<close> and \<^verbatim>\<open>toString\<close> are both absent from the table and so both of rank
  0; yet the later workflow, with status \<^verbatim>\<open>toString\<close>, is preferred to the stored one
  with status \<^verbatim>\<open>constructor\<close> and replaces it. Both priorities are inherited functions,
  which \<^verbatim>\<open>>\<close> compares as the strings they convert to.
\<close>

theorem dedupe_replaces_on_equal_rank_at_inherited_statuses:
  "rank ''constructor'' = rank ''toString'' \<and>
   shouldPreferWorkflow (wf ''2'' ''build'' ''toString'') (wf ''1'' ''build'' ''constructor'') \<and>
   uniqueWorkflows [wf ''1'' ''build'' ''constructor'', wf ''2'' ''build'' ''toString'']
     = [wf ''2'' ''build'' ''toString'']"
  by (simp add: eval_defs)

text \<open>
  C7. Deduplication is idempotent: deduplicating a deduplicated list gives that list.
\<close>

theorem dedupe_idempotent: "uniqueWorkflows (uniqueWorkflows xs) = uniqueWorkflows xs"
  by (rule unique_distinct) (simp only: names_unique distinct_first_occurrences)

theorem dedupe_idempotent_witness:
  "uniqueWorkflows workflows_p2 = [wf ''c'' ''build'' Success, wf ''b'' ''deploy'' OnHold] \<and>
   uniqueWorkflows [wf ''c'' ''build'' Success, wf ''b'' ''deploy'' OnHold]
     = [wf ''c'' ''build'' Success, wf ''b'' ''deploy'' OnHold]"
proof -
  have e: "uniqueWorkflows workflows_p2 = [wf ''c'' ''build'' Success, wf ''b'' ''deploy'' OnHold]"
    by (simp add: eval_defs)
  show ?thesis using dedupe_idempotent [of workflows_p2] unfolding e by simp
qed

text \<open>
  C10. Every entry of the deduplicated list is one of the input workflows, unchanged,
  and the names of the deduplicated list are the names of the input in the order of
  their first occurrence.
\<close>

theorem dedupe_entries_from_input_in_first_occurrence_order:
  "set (uniqueWorkflows xs) \<subseteq> set xs \<and>
   map name (uniqueWorkflows xs) = first_occurrences (map name xs)"
  by (simp only: unique_subset names_unique)

theorem dedupe_entries_from_input_in_first_occurrence_order_witness:
  "set (uniqueWorkflows workflows_p2) \<subseteq> set workflows_p2 \<and>
   map name (uniqueWorkflows workflows_p2) = [''build'', ''deploy''] \<and>
   map name workflows_p2 = [''build'', ''deploy'', ''build'', ''build'']"
  using dedupe_entries_from_input_in_first_occurrence_order [of workflows_p2]
  by (simp add: workflows_p2_def wf_def)

section \<open>Claims about the ranking\<close>

text \<open>A status that is in neither table has priority 0.\<close>

lemma absent_status_priority:
  "s \<notin> fst ` set statusPriority \<Longrightarrow> s \<notin> fst ` set Object_prototype \<Longrightarrow> priority s = Number 0"
proof -
  assume a: "s \<notin> fst ` set statusPriority" and b: "s \<notin> fst ` set Object_prototype"
  have "ranked s" using b by (simp add: ranked_iff)
  moreover have "rank s = 0" using a by (simp add: statusPriority_def rank_def)
  ultimately show ?thesis by (simp add: priority_rank)
qed

text \<open>
  C6. The property: the ranking is the table, every status absent from the table ranks
  0, and no status makes ranking, deduplication or the green check throw. The code
  computes \<^verbatim>\<open>statusPriority[s] || 0\<close>, which gives 0 for a status in neither the table
  nor \<^verbatim>\<open>Object.prototype\<close> (\<open>absent_status_priority\<close>), but not for the status
  \<^verbatim>\<open>constructor\<close>: it is absent from the table, and \<^verbatim>\<open>statusPriority['constructor']\<close>
  is the function \<^verbatim>\<open>Object\<close>, which is truthy, so the priority is that function and
  not 0. A workflow with status \<^verbatim>\<open>success\<close> is then not preferred to a stored workflow
  with this status, although the comment on \<^verbatim>\<open>shouldPreferWorkflow\<close> says
  \<^verbatim>\<open>success > on_hold > running > others\<close>, and the pipeline with these two workflows is
  judged not green. Nothing throws.
\<close>

theorem inherited_property_name_is_not_ranked_zero:
  "''constructor'' \<notin> fst ` set statusPriority \<and>
   priority ''constructor'' \<noteq> Number 0 \<and>
   \<not> shouldPreferWorkflow (wf ''2'' ''build'' Success) (wf ''1'' ''build'' ''constructor'') \<and>
   uniqueWorkflows [wf ''1'' ''build'' ''constructor'', wf ''2'' ''build'' Success]
     = [wf ''1'' ''build'' ''constructor''] \<and>
   \<not> allWorkflowsPassed [wf ''1'' ''build'' ''constructor'', wf ''2'' ''build'' Success]"
  by (simp add: eval_defs allWorkflowsPassed_def successfulWorkflows_def)

section \<open>The slug\<close>

lemma filter_dropWhile_not: "filter Q (dropWhile (\<lambda>c. \<not> Q c) xs) = filter Q xs"
  by (induction xs) auto

text \<open>A group that matched holds two slashes at least, so it is never the empty string.\<close>

lemma match_here_not_empty: "match_here s = Some g \<Longrightarrow> g \<noteq> []"
proof -
  assume m: "match_here s = Some g"
  define line where "line = rest_of_line (drop 13 s)"
  define ys where "ys = dropWhile (\<lambda>c. c \<noteq> CHR ''/'') (rev line)"
  from m have three: "3 \<le> length (filter (\<lambda>c. c = CHR ''/'') line)" and g: "g = rev (tl ys)"
    by (auto simp: match_here_def line_def ys_def Let_def split: if_splits)
  have "filter (\<lambda>c. c = CHR ''/'') ys = filter (\<lambda>c. c = CHR ''/'') (rev line)"
    unfolding ys_def using filter_dropWhile_not [of "\<lambda>c. c = CHR ''/''" "rev line"] by simp
  then have "length (filter (\<lambda>c. c = CHR ''/'') ys) = length (filter (\<lambda>c. c = CHR ''/'') line)"
    by (simp add: rev_filter [symmetric])
  with three have "3 \<le> length (filter (\<lambda>c. c = CHR ''/'') ys)" by simp
  moreover have "length (filter (\<lambda>c. c = CHR ''/'') ys) \<le> length ys" by (rule length_filter_le)
  ultimately have "3 \<le> length ys" by arith
  then have "tl ys \<noteq> []" by (cases ys) auto
  with g show ?thesis by simp
qed

lemma slug_not_empty: "slug_exec s = Some g \<Longrightarrow> g \<noteq> []"
proof (induction s)
  case Nil
  then show ?case by simp
next
  case (Cons c cs)
  then show ?case
    by (cases "match_here (c # cs)") (auto dest: match_here_not_empty)
qed

section \<open>The callback and the scan\<close>

lemma fetches_Cons: "fetches (p # ps) = fetches [p] @ fetches ps"
  by (simp add: fetches_def)

lemma fetches_append: "fetches (ps @ qs) = fetches ps @ fetches qs"
  by (simp add: fetches_def)

lemma callback_eq: "pipelineCallback w h p t = (isGreen w h p, t @ fetches [p])"
  by (simp add: isGreen_def fetches_def pipelineCallback_def split: sum.splits)

lemma find_skip:
  "\<forall>q\<in>set pre. isGreen w h q = Inr False \<Longrightarrow>
   find_async (pre @ rest) (pipelineCallback w h) t
     = find_async rest (pipelineCallback w h) (t @ fetches pre)"
proof (induction pre arbitrary: t)
  case Nil
  show ?case by (simp add: fetches_def)
next
  case (Cons q pre)
  have "find_async ((q # pre) @ rest) (pipelineCallback w h) t
          = find_async (pre @ rest) (pipelineCallback w h) (t @ fetches [q])"
    using Cons.prems by (simp add: callback_eq)
  also have "\<dots> = find_async rest (pipelineCallback w h) ((t @ fetches [q]) @ fetches pre)"
    using Cons.IH [of "t @ fetches [q]"] Cons.prems by simp
  finally show ?case by (simp add: fetches_Cons [of q pre])
qed

lemma find_none:
  "\<forall>q\<in>set ps. isGreen w h q = Inr False \<Longrightarrow>
   find_async ps (pipelineCallback w h) t = (Inr None, t @ fetches ps)"
  using find_skip [of ps w h "[]" t] by simp

lemma find_green:
  "\<forall>q\<in>set pre. isGreen w h q = Inr False \<Longrightarrow> isGreen w h p = Inr True \<Longrightarrow>
   find_async (pre @ p # post) (pipelineCallback w h) t = (Inr (Some p), t @ fetches (pre @ [p]))"
  by (simp add: find_skip callback_eq fetches_append)

lemma find_throws:
  "\<forall>q\<in>set pre. isGreen w h q = Inr False \<Longrightarrow> isGreen w h p = Inl e \<Longrightarrow>
   find_async (pre @ p # post) (pipelineCallback w h) t = (Inl e, t @ fetches (pre @ [p]))"
  by (simp add: find_skip callback_eq fetches_append)

lemma isGreen_cases:
  "isGreen w h p =
     (if state p = Created then
        (case axios_get_workflows w (workflow_url p) h of
           Inl e \<Rightarrow> Inl e
         | Inr d \<Rightarrow> Inr (allWorkflowsPassed (workflow_items d)))
      else Inr False)"
  by (simp add: isGreen_def pipelineCallback_def split: sum.splits)

lemma isGreen_throws:
  "state p = Created \<Longrightarrow> axios_get_workflows w (workflow_url p) h = Inl e \<Longrightarrow>
   isGreen w h p = Inl e"
  by (simp add: isGreen_cases)

lemma length_filter_eq_iff: "length (filter P xs) = length xs \<longleftrightarrow> (\<forall>x\<in>set xs. P x)"
proof (induction xs)
  case Nil
  show ?case by simp
next
  case (Cons x xs)
  have "length (filter P xs) \<le> length xs" by (rule length_filter_le)
  then have "length (filter P xs) \<noteq> Suc (length xs)" by arith
  then show ?case using Cons.IH by simp
qed

lemma passed_iff:
  "allWorkflowsPassed xs \<longleftrightarrow>
     uniqueWorkflows xs \<noteq> [] \<and>
     (\<forall>u\<in>set (uniqueWorkflows xs). status u = Success \<or> status u = OnHold)"
proof -
  let ?P = "\<lambda>workflow. status workflow \<in> set [Success, OnHold]"
  have "length (filter ?P (uniqueWorkflows xs)) = length (uniqueWorkflows xs)
          \<longleftrightarrow> (\<forall>u\<in>set (uniqueWorkflows xs). ?P u)"
    by (rule length_filter_eq_iff)
  then show ?thesis
    by (auto simp: allWorkflowsPassed_def successfulWorkflows_def)
qed

lemma try_block_listed:
  "pipelines_listed w branch slug h ps \<Longrightarrow>
   try_block w branch t =
     (case find_async ps (pipelineCallback w h) (t @ [Get (pipelines_url slug)]) of
        (Inl e, t') \<Rightarrow> (Inl e, t')
      | (Inr lastSuccessfulBuild, t') \<Rightarrow>
          (Inr (map_option (\<lambda>p. revision (vcs p)) lastSuccessfulBuild), t'))"
  by (auto simp: pipelines_listed_def try_block_def split: sum.splits dest: slug_not_empty)

lemma resolve_green:
  assumes "pipelines_listed w branch slug h (pre @ p # post)"
    and "\<forall>q\<in>set pre. isGreen w h q = Inr False" and "isGreen w h p = Inr True"
  shows "getLastSuccessfulBuildRevisionOnBranch w branch t =
           (Some (revision (vcs p)), t @ Get (pipelines_url slug) # fetches (pre @ [p]))"
  using assms
  by (simp add: getLastSuccessfulBuildRevisionOnBranch_def try_block_listed find_green)

lemma resolve_none:
  assumes "pipelines_listed w branch slug h ps"
    and "\<forall>q\<in>set ps. isGreen w h q = Inr False"
  shows "getLastSuccessfulBuildRevisionOnBranch w branch t =
           (None, t @ Get (pipelines_url slug) # fetches ps)"
  using assms
  by (simp add: getLastSuccessfulBuildRevisionOnBranch_def try_block_listed find_none)

lemma resolve_throws:
  assumes "pipelines_listed w branch slug h (pre @ p # post)"
    and "\<forall>q\<in>set pre. isGreen w h q = Inr False" and "isGreen w h p = Inl (Exception msg)"
  shows "getLastSuccessfulBuildRevisionOnBranch w branch t =
           (None, t @ Get (pipelines_url slug) # fetches (pre @ [p]) @
                  [ConsoleLog (''Failed to call Circle API v2 with error: '' @ msg)])"
  using assms
  by (simp add: getLastSuccessfulBuildRevisionOnBranch_def try_block_listed find_throws)

text \<open>Every list of pipelines is of one of the three kinds.\<close>

lemma scan_cases:
  "(\<forall>q\<in>set ps. isGreen w h q = Inr False) \<or>
   (\<exists>pre p post. ps = pre @ p # post \<and> (\<forall>q\<in>set pre. isGreen w h q = Inr False) \<and>
      (isGreen w h p = Inr True \<or> (\<exists>e. isGreen w h p = Inl e)))"
proof (induction ps)
  case Nil
  show ?case by simp
next
  case (Cons a ps)
  show ?case
  proof (cases "isGreen w h a = Inr False")
    case False
    then have "isGreen w h a = Inr True \<or> (\<exists>e. isGreen w h a = Inl e)"
      by (cases "isGreen w h a") auto
    then have "a # ps = [] @ a # ps \<and> (\<forall>q\<in>set []. isGreen w h q = Inr False) \<and>
      (isGreen w h a = Inr True \<or> (\<exists>e. isGreen w h a = Inl e))" by simp
    then show ?thesis by blast
  next
    case True
    from Cons.IH show ?thesis
    proof
      assume "\<forall>q\<in>set ps. isGreen w h q = Inr False"
      with True show ?thesis by simp
    next
      assume "\<exists>pre p post. ps = pre @ p # post \<and> (\<forall>q\<in>set pre. isGreen w h q = Inr False) \<and>
        (isGreen w h p = Inr True \<or> (\<exists>e. isGreen w h p = Inl e))"
      then obtain pre p post where
        "ps = pre @ p # post" "\<forall>q\<in>set pre. isGreen w h q = Inr False"
        "isGreen w h p = Inr True \<or> (\<exists>e. isGreen w h p = Inl e)" by blast
      with True have "a # ps = (a # pre) @ p # post \<and>
        (\<forall>q\<in>set (a # pre). isGreen w h q = Inr False) \<and>
        (isGreen w h p = Inr True \<or> (\<exists>e. isGreen w h p = Inl e))" by simp
      then show ?thesis by blast
    qed
  qed
qed

lemma resolve_no_config:
  "requireEnv w ''CIRCLE_BUILD_URL'' = Inl e \<or> requireEnv w ''CIRCLE_TOKEN'' = Inl e \<Longrightarrow>
   fst (getLastSuccessfulBuildRevisionOnBranch w branch t) = None"
  by (cases e)
    (auto simp: getLastSuccessfulBuildRevisionOnBranch_def try_block_def Let_def
      split: sum.splits option.splits prod.splits exception.splits)

lemma resolve_no_slug:
  "requireEnv w ''CIRCLE_BUILD_URL'' = Inr buildUrl \<Longrightarrow> slug_exec buildUrl = None \<Longrightarrow>
   fst (getLastSuccessfulBuildRevisionOnBranch w branch t) = None"
  by (auto simp: getLastSuccessfulBuildRevisionOnBranch_def try_block_def
      split: sum.splits exception.splits)

lemma resolve_no_pipelines:
  "requireEnv w ''CIRCLE_BUILD_URL'' = Inr buildUrl \<Longrightarrow> slug_exec buildUrl = Some slug \<Longrightarrow>
   requireEnv w ''CIRCLE_TOKEN'' = Inr h \<Longrightarrow>
   axios_get_pipelines w (pipelines_url slug) h branch = Inl (Exception msg) \<Longrightarrow>
   getLastSuccessfulBuildRevisionOnBranch w branch t =
     (None, t @ [Get (pipelines_url slug),
                 ConsoleLog (''Failed to call Circle API v2 with error: '' @ msg)])"
  by (auto simp: getLastSuccessfulBuildRevisionOnBranch_def try_block_def dest: slug_not_empty)

text \<open>A revision is returned only by a scan that reaches a green pipeline.\<close>

lemma resolve_Some:
  assumes "fst (getLastSuccessfulBuildRevisionOnBranch w branch t) = Some r"
  shows "\<exists>slug h pre p post.
           pipelines_listed w branch slug h (pre @ p # post) \<and>
           (\<forall>q\<in>set pre. isGreen w h q = Inr False) \<and> isGreen w h p = Inr True \<and>
           r = revision (vcs p)"
proof -
  from assms obtain buildUrl where url: "requireEnv w ''CIRCLE_BUILD_URL'' = Inr buildUrl"
    using resolve_no_config [of w _ branch t] by (cases "requireEnv w ''CIRCLE_BUILD_URL''") auto
  from assms obtain h where tok: "requireEnv w ''CIRCLE_TOKEN'' = Inr h"
    using resolve_no_config [of w _ branch t] by (cases "requireEnv w ''CIRCLE_TOKEN''") auto
  from assms url obtain slug where slug: "slug_exec buildUrl = Some slug"
    using resolve_no_slug [of w buildUrl branch t] by (cases "slug_exec buildUrl") auto
  have "\<exists>d. axios_get_pipelines w (pipelines_url slug) h branch = Inr d"
  proof (cases "axios_get_pipelines w (pipelines_url slug) h branch")
    case (Inl e)
    obtain msg where "e = Exception msg" by (cases e)
    with Inl have "fst (getLastSuccessfulBuildRevisionOnBranch w branch t) = None"
      using resolve_no_pipelines [OF url slug tok, of branch msg t] by simp
    with assms show ?thesis by simp
  next
    case (Inr d)
    then show ?thesis by blast
  qed
  then obtain d where d: "axios_get_pipelines w (pipelines_url slug) h branch = Inr d" ..
  have listed: "pipelines_listed w branch slug h (pipeline_items d)"
    using url tok slug d by (simp add: pipelines_listed_def)
  from scan_cases [of "pipeline_items d" w h] show ?thesis
  proof
    assume "\<forall>q\<in>set (pipeline_items d). isGreen w h q = Inr False"
    then show ?thesis using resolve_none [OF listed, of t] assms by simp
  next
    assume "\<exists>pre p post. pipeline_items d = pre @ p # post \<and>
      (\<forall>q\<in>set pre. isGreen w h q = Inr False) \<and>
      (isGreen w h p = Inr True \<or> (\<exists>e. isGreen w h p = Inl e))"
    then obtain pre p post where split: "pipeline_items d = pre @ p # post"
      and pre: "\<forall>q\<in>set pre. isGreen w h q = Inr False"
      and p: "isGreen w h p = Inr True \<or> (\<exists>e. isGreen w h p = Inl e)" by blast
    from p show ?thesis
    proof
      assume g: "isGreen w h p = Inr True"
      have "getLastSuccessfulBuildRevisionOnBranch w branch t =
              (Some (revision (vcs p)), t @ Get (pipelines_url slug) # fetches (pre @ [p]))"
        using listed pre g unfolding split by (rule resolve_green)
      with assms have "r = revision (vcs p)" by simp
      with listed pre g show ?thesis unfolding split by blast
    next
      assume "\<exists>e. isGreen w h p = Inl e"
      then obtain msg where "isGreen w h p = Inl (Exception msg)"
        by (metis exception.exhaust)
      with listed pre have "fst (getLastSuccessfulBuildRevisionOnBranch w branch t) = None"
        unfolding split using resolve_throws [of w branch slug h pre p post msg t] by simp
      with assms show ?thesis by simp
    qed
  qed
qed

section \<open>The example service\<close>

lemma slug_example: "slug_exec ''https://circleci.com/gh/org/repo/123'' = Some ''gh/org/repo''"
  by (simp add: match_here_def at_line_terminator_def)

lemma listed_main: "pipelines_listed service ''main'' ''gh/org/repo'' ''secret'' [p4, p3, p2, p1]"
  by (simp add: pipelines_listed_def service_def slug_example pipelines_url_def CIRCLE_API_URL_def
      del: slug_exec.simps)

lemma listed_dev: "pipelines_listed service ''dev'' ''gh/org/repo'' ''secret'' [p3, p1, p2]"
  by (simp add: pipelines_listed_def service_def slug_example pipelines_url_def CIRCLE_API_URL_def
      del: slug_exec.simps)

lemma listed_old: "pipelines_listed service ''old'' ''gh/org/repo'' ''secret'' [p4, p3, p0]"
  by (simp add: pipelines_listed_def service_def slug_example pipelines_url_def CIRCLE_API_URL_def
      del: slug_exec.simps)

lemma green_examples:
  "isGreen service ''secret'' p0 = Inr False" "isGreen service ''secret'' p1 = Inl (Exception ''timeout'')"
  "isGreen service ''secret'' p2 = Inr True" "isGreen service ''secret'' p3 = Inr False"
  "isGreen service ''secret'' p4 = Inr False"
  by (simp_all add: isGreen_cases service_def p0_def p1_def p2_def p3_def p4_def pl_def
      workflow_url_def CIRCLE_API_URL_def allWorkflowsPassed_def successfulWorkflows_def eval_defs)

lemma fetches_examples:
  "fetches [p4, p3, p2] =
     [Get ''https://circleci.com/api/v2/pipeline/p4/workflow'',
      Get ''https://circleci.com/api/v2/pipeline/p2/workflow'']"
  "fetches [p3, p1] = [Get ''https://circleci.com/api/v2/pipeline/p1/workflow'']"
  "fetches [p4, p3, p0] =
     [Get ''https://circleci.com/api/v2/pipeline/p4/workflow'',
      Get ''https://circleci.com/api/v2/pipeline/p0/workflow'']"
  by (simp_all add: fetches_def p0_def p1_def p2_def p3_def p4_def pl_def workflow_url_def
      CIRCLE_API_URL_def)

lemma service_env:
  "requireEnv service ''CIRCLE_BUILD_URL'' = Inr ''https://circleci.com/gh/org/repo/123''"
  "requireEnv service ''CIRCLE_TOKEN'' = Inr ''secret''"
  "requireEnv service_no_token ''CIRCLE_TOKEN'' = Inl (Exception ''missing'')"
  "axios_get_pipelines service ''https://circleci.com/api/v2/project/gh/org/repo/pipeline''
     ''secret'' ''gone'' = Inl (Exception ''404'')"
  by (simp_all add: service_def service_no_token_def)

lemma p1_fetch:
  "state p1 = Created"
  "workflow_url p1 = ''https://circleci.com/api/v2/pipeline/p1/workflow''"
  "axios_get_workflows service ''https://circleci.com/api/v2/pipeline/p1/workflow'' ''secret''
     = Inl (Exception ''timeout'')"
  by (simp_all add: p1_def pl_def workflow_url_def CIRCLE_API_URL_def service_def)

section \<open>Claims about the evaluation of one pipeline\<close>

text \<open>
  C1. For every pipeline in state \<^verbatim>\<open>created\<close> whose workflows are fetched, the callback
  makes that one request and judges the pipeline green if and only if the deduplicated
  list of its workflows is not empty and every entry of it has status \<^verbatim>\<open>success\<close> or
  \<^verbatim>\<open>on_hold\<close>. A pipeline with no workflow is judged not green, and the deduplicated
  list is empty only when the list of workflows is.
\<close>

theorem created_pipeline_green_iff_all_deduplicated_workflows_passed:
  "(state p = Created \<and> axios_get_workflows w (workflow_url p) h = Inr d \<longrightarrow>
      pipelineCallback w h p t =
        (Inr (uniqueWorkflows (workflow_items d) \<noteq> [] \<and>
              (\<forall>u\<in>set (uniqueWorkflows (workflow_items d)).
                 status u = Success \<or> status u = OnHold)),
         t @ [Get (workflow_url p)])) \<and>
   (state p = Created \<and> axios_get_workflows w (workflow_url p) h = Inr d \<and>
    workflow_items d = [] \<longrightarrow>
      fst (pipelineCallback w h p t) = Inr False) \<and>
   (uniqueWorkflows xs = [] \<longleftrightarrow> xs = [])"
  by (simp add: pipelineCallback_def passed_iff unique_Nil_iff)

theorem created_pipeline_green_iff_all_deduplicated_workflows_passed_witness:
  "pipelineCallback service ''secret'' p2 []
     = (Inr True, [Get ''https://circleci.com/api/v2/pipeline/p2/workflow'']) \<and>
   pipelineCallback service ''secret'' p4 []
     = (Inr False, [Get ''https://circleci.com/api/v2/pipeline/p4/workflow'']) \<and>
   fst (pipelineCallback service ''secret'' p0 []) = Inr False \<and>
   uniqueWorkflows workflows_p2 = [wf ''c'' ''build'' Success, wf ''b'' ''deploy'' OnHold] \<and>
   uniqueWorkflows workflows_p4 = [wf ''e'' ''build'' Success, wf ''f'' ''test'' Failed]"
proof -
  have u2: "uniqueWorkflows workflows_p2 = [wf ''c'' ''build'' Success, wf ''b'' ''deploy'' OnHold]"
    and u4: "uniqueWorkflows workflows_p4 = [wf ''e'' ''build'' Success, wf ''f'' ''test'' Failed]"
    by (simp_all add: eval_defs)
  have urls:
    "workflow_url p0 = ''https://circleci.com/api/v2/pipeline/p0/workflow''"
    "workflow_url p2 = ''https://circleci.com/api/v2/pipeline/p2/workflow''"
    "workflow_url p4 = ''https://circleci.com/api/v2/pipeline/p4/workflow''"
    by (simp_all add: workflow_url_def CIRCLE_API_URL_def p0_def p2_def p4_def pl_def)
  have created: "state p0 = Created" "state p2 = Created" "state p4 = Created"
    by (simp_all add: p0_def p2_def p4_def pl_def)
  have a: "pipelineCallback service ''secret'' p2 [] =
        (Inr (uniqueWorkflows (workflow_items \<lparr>workflow_items = workflows_p2\<rparr>) \<noteq> [] \<and>
              (\<forall>u\<in>set (uniqueWorkflows (workflow_items \<lparr>workflow_items = workflows_p2\<rparr>)).
                 status u = Success \<or> status u = OnHold)),
         [] @ [Get (workflow_url p2)])"
    by (rule created_pipeline_green_iff_all_deduplicated_workflows_passed
          [THEN conjunct1, THEN mp])
      (simp add: created urls service_def)
  have b: "pipelineCallback service ''secret'' p4 [] =
        (Inr (uniqueWorkflows (workflow_items \<lparr>workflow_items = workflows_p4\<rparr>) \<noteq> [] \<and>
              (\<forall>u\<in>set (uniqueWorkflows (workflow_items \<lparr>workflow_items = workflows_p4\<rparr>)).
                 status u = Success \<or> status u = OnHold)),
         [] @ [Get (workflow_url p4)])"
    by (rule created_pipeline_green_iff_all_deduplicated_workflows_passed
          [THEN conjunct1, THEN mp])
      (simp add: created urls service_def)
  have c: "fst (pipelineCallback service ''secret'' p0 []) = Inr False"
    by (rule created_pipeline_green_iff_all_deduplicated_workflows_passed
          [of p0 service "''secret''" "\<lparr>workflow_items = []\<rparr>", THEN conjunct2, THEN conjunct1, THEN mp])
      (simp add: created urls service_def)
  show ?thesis using a b c by (simp add: u2 u4 urls wf_def)
qed

text \<open>
  C3. For every pipeline whose state is not \<^verbatim>\<open>created\<close>, the callback answers false
  and leaves the trace as it was: no request is made for it.
\<close>

theorem pipeline_not_created_is_not_green_and_not_fetched:
  "state p \<noteq> Created \<Longrightarrow> pipelineCallback w h p t = (Inr False, t)"
  by (simp add: pipelineCallback_def)

theorem pipeline_not_created_is_not_green_and_not_fetched_witness:
  "state p3 = Pending \<and> pipelineCallback service ''secret'' p3 [] = (Inr False, []) \<and>
   pipelineCallback service ''secret'' (pl ''p5'' Errored ''rev5'') [Get ''x''] = (Inr False, [Get ''x'']) \<and>
   pipelineCallback service ''secret'' (pl ''p6'' SetupPending ''rev6'') [] = (Inr False, []) \<and>
   pipelineCallback service ''secret'' (pl ''p7'' Setup ''rev7'') [] = (Inr False, [])"
proof -
  have s: "state p3 = Pending" "state (pl ''p5'' Errored ''rev5'') = Errored"
    "state (pl ''p6'' SetupPending ''rev6'') = SetupPending" "state (pl ''p7'' Setup ''rev7'') = Setup"
    by (simp_all add: p3_def pl_def)
  have "pipelineCallback service ''secret'' p3 [] = (Inr False, [])"
    by (rule pipeline_not_created_is_not_green_and_not_fetched) (simp add: s)
  moreover have "pipelineCallback service ''secret'' (pl ''p5'' Errored ''rev5'') [Get ''x''] = (Inr False, [Get ''x''])"
    by (rule pipeline_not_created_is_not_green_and_not_fetched) (simp add: s)
  moreover have "pipelineCallback service ''secret'' (pl ''p6'' SetupPending ''rev6'') [] = (Inr False, [])"
    by (rule pipeline_not_created_is_not_green_and_not_fetched) (simp add: s)
  moreover have "pipelineCallback service ''secret'' (pl ''p7'' Setup ''rev7'') [] = (Inr False, [])"
    by (rule pipeline_not_created_is_not_green_and_not_fetched) (simp add: s)
  ultimately show ?thesis using s(1) by simp
qed

section \<open>Claims about the scan and the resolver\<close>

text \<open>
  C2. The scan goes through the pipelines in the order given. When every pipeline before
  \<open>p\<close> is judged not green and \<open>p\<close> is judged green, \<^verbatim>\<open>find\<close> returns \<open>p\<close> and the
  resolver returns the revision of \<open>p\<close>; the requests made are those for the pipelines
  up to \<open>p\<close>, whatever follows \<open>p\<close> in the list, so no later pipeline is evaluated. When
  every pipeline is judged not green, \<^verbatim>\<open>find\<close> returns nothing and the resolver returns
  nothing. (\<open>scan_cases\<close>: the only other lists are those where the first pipeline not
  judged not green makes the callback throw, which is C9.)
\<close>

theorem resolver_returns_revision_of_first_green_pipeline:
  "((\<forall>q\<in>set pre. isGreen w h q = Inr False) \<and> isGreen w h p = Inr True \<longrightarrow>
      find_async (pre @ p # post) (pipelineCallback w h) t
        = (Inr (Some p), t @ fetches (pre @ [p]))) \<and>
   ((\<forall>q\<in>set ps. isGreen w h q = Inr False) \<longrightarrow>
      find_async ps (pipelineCallback w h) t = (Inr None, t @ fetches ps)) \<and>
   (pipelines_listed w branch slug h (pre @ p # post) \<and>
    (\<forall>q\<in>set pre. isGreen w h q = Inr False) \<and> isGreen w h p = Inr True \<longrightarrow>
      getLastSuccessfulBuildRevisionOnBranch w branch t
        = (Some (revision (vcs p)), t @ Get (pipelines_url slug) # fetches (pre @ [p]))) \<and>
   (pipelines_listed w branch slug h ps \<and> (\<forall>q\<in>set ps. isGreen w h q = Inr False) \<longrightarrow>
      getLastSuccessfulBuildRevisionOnBranch w branch t
        = (None, t @ Get (pipelines_url slug) # fetches ps))"
  using find_green [of pre w h p post t] find_none [of ps w h t]
    resolve_green [of w branch slug h pre p post t] resolve_none [of w branch slug h ps t]
  by blast

theorem resolver_returns_revision_of_first_green_pipeline_witness:
  "getLastSuccessfulBuildRevisionOnBranch service ''main'' []
     = (Some ''rev2'',
        [Get ''https://circleci.com/api/v2/project/gh/org/repo/pipeline'',
         Get ''https://circleci.com/api/v2/pipeline/p4/workflow'',
         Get ''https://circleci.com/api/v2/pipeline/p2/workflow'']) \<and>
   getLastSuccessfulBuildRevisionOnBranch service ''old'' []
     = (None,
        [Get ''https://circleci.com/api/v2/project/gh/org/repo/pipeline'',
         Get ''https://circleci.com/api/v2/pipeline/p4/workflow'',
         Get ''https://circleci.com/api/v2/pipeline/p0/workflow'']) \<and>
   find_async [p4, p3, p2, p1] (pipelineCallback service ''secret'') []
     = (Inr (Some p2),
        [Get ''https://circleci.com/api/v2/pipeline/p4/workflow'',
         Get ''https://circleci.com/api/v2/pipeline/p2/workflow'']) \<and>
   find_async [p4, p3, p0] (pipelineCallback service ''secret'') []
     = (Inr None,
        [Get ''https://circleci.com/api/v2/pipeline/p4/workflow'',
         Get ''https://circleci.com/api/v2/pipeline/p0/workflow''])"
proof -
  note main = resolver_returns_revision_of_first_green_pipeline
    [of "[p4, p3]" service "''secret''" p2 "[p1]" "[]" "[p4, p3, p0]" "''main''" "''gh/org/repo''"]
  note old = resolver_returns_revision_of_first_green_pipeline
    [of "[p4, p3]" service "''secret''" p2 "[p1]" "[]" "[p4, p3, p0]" "''old''" "''gh/org/repo''"]
  have a: "find_async ([p4, p3] @ p2 # [p1]) (pipelineCallback service ''secret'') []
             = (Inr (Some p2), [] @ fetches ([p4, p3] @ [p2]))"
    by (rule main [THEN conjunct1, THEN mp]) (simp add: green_examples)
  have b: "find_async [p4, p3, p0] (pipelineCallback service ''secret'') []
             = (Inr None, [] @ fetches [p4, p3, p0])"
    by (rule main [THEN conjunct2, THEN conjunct1, THEN mp]) (simp add: green_examples)
  have c: "getLastSuccessfulBuildRevisionOnBranch service ''main'' []
             = (Some (revision (vcs p2)),
                [] @ Get (pipelines_url ''gh/org/repo'') # fetches ([p4, p3] @ [p2]))"
    by (rule main [THEN conjunct2, THEN conjunct2, THEN conjunct1, THEN mp])
      (simp add: green_examples listed_main)
  have d: "getLastSuccessfulBuildRevisionOnBranch service ''old'' []
             = (None, [] @ Get (pipelines_url ''gh/org/repo'') # fetches [p4, p3, p0])"
    by (rule old [THEN conjunct2, THEN conjunct2, THEN conjunct2, THEN mp])
      (simp add: green_examples listed_old)
  have r: "revision (vcs p2) = ''rev2''" by (simp add: p2_def pl_def)
  show ?thesis
    using a b c d
    by (simp add: r fetches_examples pipelines_url_def CIRCLE_API_URL_def del: find_async.simps)
qed

text \<open>
  C9. When the request for the workflows of a pipeline in state \<^verbatim>\<open>created\<close> fails, the
  callback throws and so does not answer true. If every pipeline before it was judged
  not green, \<^verbatim>\<open>find\<close> ends with that exception after the requests for the pipelines up
  to this one, whatever follows it in the list, and the resolver logs the message and
  returns nothing.
\<close>

theorem failed_workflow_fetch_aborts_the_resolution:
  "(state p = Created \<and> axios_get_workflows w (workflow_url p) h = Inl e \<longrightarrow>
      pipelineCallback w h p t = (Inl e, t @ [Get (workflow_url p)])) \<and>
   ((\<forall>q\<in>set pre. isGreen w h q = Inr False) \<and>
    state p = Created \<and> axios_get_workflows w (workflow_url p) h = Inl e \<longrightarrow>
      find_async (pre @ p # post) (pipelineCallback w h) t
        = (Inl e, t @ fetches (pre @ [p]))) \<and>
   (pipelines_listed w branch slug h (pre @ p # post) \<and>
    (\<forall>q\<in>set pre. isGreen w h q = Inr False) \<and>
    state p = Created \<and> axios_get_workflows w (workflow_url p) h = Inl (Exception msg) \<longrightarrow>
      getLastSuccessfulBuildRevisionOnBranch w branch t
        = (None,
           t @ Get (pipelines_url slug) # fetches (pre @ [p]) @
           [ConsoleLog (''Failed to call Circle API v2 with error: '' @ msg)]))"
proof (intro conjI)
  show "state p = Created \<and> axios_get_workflows w (workflow_url p) h = Inl e \<longrightarrow>
      pipelineCallback w h p t = (Inl e, t @ [Get (workflow_url p)])"
    by (simp add: pipelineCallback_def)
  show "(\<forall>q\<in>set pre. isGreen w h q = Inr False) \<and>
    state p = Created \<and> axios_get_workflows w (workflow_url p) h = Inl e \<longrightarrow>
      find_async (pre @ p # post) (pipelineCallback w h) t
        = (Inl e, t @ fetches (pre @ [p]))"
    using find_throws [of pre w h p e post t] isGreen_throws [of p w h e] by simp
  show "pipelines_listed w branch slug h (pre @ p # post) \<and>
    (\<forall>q\<in>set pre. isGreen w h q = Inr False) \<and>
    state p = Created \<and> axios_get_workflows w (workflow_url p) h = Inl (Exception msg) \<longrightarrow>
      getLastSuccessfulBuildRevisionOnBranch w branch t
        = (None,
           t @ Get (pipelines_url slug) # fetches (pre @ [p]) @
           [ConsoleLog (''Failed to call Circle API v2 with error: '' @ msg)])"
    using resolve_throws [of w branch slug h pre p post msg t]
      isGreen_throws [of p w h "Exception msg"] by simp
qed

theorem failed_workflow_fetch_aborts_the_resolution_witness:
  "pipelineCallback service ''secret'' p1 []
     = (Inl (Exception ''timeout''), [Get ''https://circleci.com/api/v2/pipeline/p1/workflow'']) \<and>
   find_async [p3, p1, p2] (pipelineCallback service ''secret'') []
     = (Inl (Exception ''timeout''), [Get ''https://circleci.com/api/v2/pipeline/p1/workflow'']) \<and>
   getLastSuccessfulBuildRevisionOnBranch service ''dev'' []
     = (None,
        [Get ''https://circleci.com/api/v2/project/gh/org/repo/pipeline'',
         Get ''https://circleci.com/api/v2/pipeline/p1/workflow'',
         ConsoleLog ''Failed to call Circle API v2 with error: timeout'']) \<and>
   isGreen service ''secret'' p2 = Inr True"
proof -
  note dev = failed_workflow_fetch_aborts_the_resolution
    [of p1 service "''secret''" "Exception ''timeout''" "[]" "[p3]" "[p2]" "''dev''"
        "''gh/org/repo''" "''timeout''"]
  have a: "pipelineCallback service ''secret'' p1 []
             = (Inl (Exception ''timeout''), [] @ [Get (workflow_url p1)])"
    by (rule dev [THEN conjunct1, THEN mp]) (simp add: p1_fetch)
  have b: "find_async ([p3] @ p1 # [p2]) (pipelineCallback service ''secret'') []
             = (Inl (Exception ''timeout''), [] @ fetches ([p3] @ [p1]))"
    by (rule dev [THEN conjunct2, THEN conjunct1, THEN mp]) (simp add: p1_fetch green_examples)
  have c: "getLastSuccessfulBuildRevisionOnBranch service ''dev'' []
             = (None,
                [] @ Get (pipelines_url ''gh/org/repo'') # fetches ([p3] @ [p1]) @
                [ConsoleLog (''Failed to call Circle API v2 with error: '' @ ''timeout'')])"
    by (rule dev [THEN conjunct2, THEN conjunct2, THEN mp])
      (simp add: p1_fetch green_examples listed_dev)
  show ?thesis
    using a b c
    by (simp add: p1_fetch green_examples fetches_examples pipelines_url_def CIRCLE_API_URL_def
        del: find_async.simps)
qed

text \<open>
  C8. The resolver returns nothing, and does not throw, when \<^verbatim>\<open>CIRCLE_BUILD_URL\<close> or
  \<^verbatim>\<open>CIRCLE_TOKEN\<close> is missing, when the build URL holds no slug, when the request for
  the pipelines fails, and when a request for workflows that the scan makes fails. It
  returns nothing as well when every pipeline is judged not green, so the two outcomes
  are one to the caller. A revision is returned only when the scan reaches a pipeline
  judged green.
\<close>

theorem every_failure_is_reported_as_absence:
  "(requireEnv w ''CIRCLE_BUILD_URL'' = Inl e \<longrightarrow>
      fst (getLastSuccessfulBuildRevisionOnBranch w branch t) = None) \<and>
   (requireEnv w ''CIRCLE_TOKEN'' = Inl e \<longrightarrow>
      fst (getLastSuccessfulBuildRevisionOnBranch w branch t) = None) \<and>
   (requireEnv w ''CIRCLE_BUILD_URL'' = Inr buildUrl \<and> slug_exec buildUrl = None \<longrightarrow>
      fst (getLastSuccessfulBuildRevisionOnBranch w branch t) = None) \<and>
   (requireEnv w ''CIRCLE_BUILD_URL'' = Inr buildUrl \<and> slug_exec buildUrl = Some slug \<and>
    requireEnv w ''CIRCLE_TOKEN'' = Inr h \<and>
    axios_get_pipelines w (pipelines_url slug) h branch = Inl e \<longrightarrow>
      fst (getLastSuccessfulBuildRevisionOnBranch w branch t) = None) \<and>
   (pipelines_listed w branch slug h (pre @ p # post) \<and>
    (\<forall>q\<in>set pre. isGreen w h q = Inr False) \<and>
    state p = Created \<and> axios_get_workflows w (workflow_url p) h = Inl e \<longrightarrow>
      fst (getLastSuccessfulBuildRevisionOnBranch w branch t) = None) \<and>
   (pipelines_listed w branch slug h ps \<and> (\<forall>q\<in>set ps. isGreen w h q = Inr False) \<longrightarrow>
      fst (getLastSuccessfulBuildRevisionOnBranch w branch t) = None) \<and>
   (fst (getLastSuccessfulBuildRevisionOnBranch w branch t) = Some r \<longrightarrow>
      (\<exists>slug h pre p post.
         pipelines_listed w branch slug h (pre @ p # post) \<and>
         (\<forall>q\<in>set pre. isGreen w h q = Inr False) \<and> isGreen w h p = Inr True \<and>
         r = revision (vcs p)))"
proof -
  obtain msg where e: "e = Exception msg" by (cases e)
  have "requireEnv w ''CIRCLE_BUILD_URL'' = Inl e \<longrightarrow>
      fst (getLastSuccessfulBuildRevisionOnBranch w branch t) = None"
    using resolve_no_config [of w e branch t] by simp
  moreover have "requireEnv w ''CIRCLE_TOKEN'' = Inl e \<longrightarrow>
      fst (getLastSuccessfulBuildRevisionOnBranch w branch t) = None"
    using resolve_no_config [of w e branch t] by simp
  moreover have "requireEnv w ''CIRCLE_BUILD_URL'' = Inr buildUrl \<and> slug_exec buildUrl = None \<longrightarrow>
      fst (getLastSuccessfulBuildRevisionOnBranch w branch t) = None"
    using resolve_no_slug [of w buildUrl branch t] by simp
  moreover have "requireEnv w ''CIRCLE_BUILD_URL'' = Inr buildUrl \<and> slug_exec buildUrl = Some slug \<and>
    requireEnv w ''CIRCLE_TOKEN'' = Inr h \<and>
    axios_get_pipelines w (pipelines_url slug) h branch = Inl e \<longrightarrow>
      fst (getLastSuccessfulBuildRevisionOnBranch w branch t) = None"
    using resolve_no_pipelines [of w buildUrl slug h branch msg t] e by simp
  moreover have "pipelines_listed w branch slug h (pre @ p # post) \<and>
    (\<forall>q\<in>set pre. isGreen w h q = Inr False) \<and>
    state p = Created \<and> axios_get_workflows w (workflow_url p) h = Inl e \<longrightarrow>
      fst (getLastSuccessfulBuildRevisionOnBranch w branch t) = None"
    using resolve_throws [of w branch slug h pre p post msg t] isGreen_throws [of p w h e] e
    by simp
  moreover have "pipelines_listed w branch slug h ps \<and> (\<forall>q\<in>set ps. isGreen w h q = Inr False) \<longrightarrow>
      fst (getLastSuccessfulBuildRevisionOnBranch w branch t) = None"
    using resolve_none [of w branch slug h ps t] by simp
  moreover have "fst (getLastSuccessfulBuildRevisionOnBranch w branch t) = Some r \<longrightarrow>
      (\<exists>slug h pre p post.
         pipelines_listed w branch slug h (pre @ p # post) \<and>
         (\<forall>q\<in>set pre. isGreen w h q = Inr False) \<and> isGreen w h p = Inr True \<and>
         r = revision (vcs p))"
    using resolve_Some [of w branch t r] by blast
  ultimately show ?thesis by (intro conjI)
qed

theorem every_failure_is_reported_as_absence_witness:
  "fst (getLastSuccessfulBuildRevisionOnBranch
          (service\<lparr>requireEnv := \<lambda>key. Inl (Exception ''missing'')\<rparr>) ''main'' []) = None \<and>
   fst (getLastSuccessfulBuildRevisionOnBranch service_no_token ''main'' []) = None \<and>
   fst (getLastSuccessfulBuildRevisionOnBranch
          (service\<lparr>requireEnv := \<lambda>key. Inr ''circleci.com/gh/org''\<rparr>) ''main'' []) = None \<and>
   fst (getLastSuccessfulBuildRevisionOnBranch service ''gone'' []) = None \<and>
   fst (getLastSuccessfulBuildRevisionOnBranch service ''dev'' []) = None \<and>
   fst (getLastSuccessfulBuildRevisionOnBranch service ''old'' []) = None \<and>
   (\<exists>slug h pre p post.
      pipelines_listed service ''main'' slug h (pre @ p # post) \<and>
      (\<forall>q\<in>set pre. isGreen service h q = Inr False) \<and> isGreen service h p = Inr True \<and>
      ''rev2'' = revision (vcs p))"
proof -
  have a: "fst (getLastSuccessfulBuildRevisionOnBranch
          (service\<lparr>requireEnv := \<lambda>key. Inl (Exception ''missing'')\<rparr>) ''main'' []) = None"
    by (rule every_failure_is_reported_as_absence
          [of _ "Exception ''missing''", THEN conjunct1, THEN mp]) simp
  have b: "fst (getLastSuccessfulBuildRevisionOnBranch service_no_token ''main'' []) = None"
    by (rule every_failure_is_reported_as_absence
          [of _ "Exception ''missing''", THEN conjunct2, THEN conjunct1, THEN mp])
      (simp add: service_env)
  have no_slug: "slug_exec ''circleci.com/gh/org'' = None"
    by (simp add: match_here_def at_line_terminator_def)
  have c: "fst (getLastSuccessfulBuildRevisionOnBranch
          (service\<lparr>requireEnv := \<lambda>key. Inr ''circleci.com/gh/org''\<rparr>) ''main'' []) = None"
    by (rule every_failure_is_reported_as_absence
          [of _ _ _ _ "''circleci.com/gh/org''",
           THEN conjunct2, THEN conjunct2, THEN conjunct1, THEN mp])
      (simp add: no_slug del: slug_exec.simps)
  have d: "fst (getLastSuccessfulBuildRevisionOnBranch service ''gone'' []) = None"
    by (rule every_failure_is_reported_as_absence
          [of _ "Exception ''404''" _ _ "''https://circleci.com/gh/org/repo/123''"
              "''gh/org/repo''" "''secret''",
           THEN conjunct2, THEN conjunct2, THEN conjunct2, THEN conjunct1, THEN mp])
      (simp add: service_env slug_example pipelines_url_def CIRCLE_API_URL_def
        del: slug_exec.simps)
  have e: "fst (getLastSuccessfulBuildRevisionOnBranch service ''dev'' []) = None"
    by (rule every_failure_is_reported_as_absence
          [of _ "Exception ''timeout''" _ _ _ "''gh/org/repo''" "''secret''" "[p3]" p1 "[p2]",
           THEN conjunct2, THEN conjunct2, THEN conjunct2, THEN conjunct2, THEN conjunct1,
           THEN mp])
      (simp add: listed_dev green_examples p1_fetch)
  have f: "fst (getLastSuccessfulBuildRevisionOnBranch service ''old'' []) = None"
    by (rule every_failure_is_reported_as_absence
          [of _ _ _ _ _ "''gh/org/repo''" "''secret''" _ _ _ "[p4, p3, p0]",
           THEN conjunct2, THEN conjunct2, THEN conjunct2, THEN conjunct2, THEN conjunct2,
           THEN conjunct1, THEN mp])
      (simp add: listed_old green_examples)
  have r: "revision (vcs p2) = ''rev2''" by (simp add: p2_def pl_def)
  have "fst (getLastSuccessfulBuildRevisionOnBranch service ''main'' []) = Some ''rev2''"
    using resolve_green [of service "''main''" "''gh/org/repo''" "''secret''" "[p4, p3]" p2 "[p1]" "[]"]
      listed_main
    by (simp add: green_examples r)
  then have g: "\<exists>slug h pre p post.
      pipelines_listed service ''main'' slug h (pre @ p # post) \<and>
      (\<forall>q\<in>set pre. isGreen service h q = Inr False) \<and> isGreen service h p = Inr True \<and>
      ''rev2'' = revision (vcs p)"
    by (rule every_failure_is_reported_as_absence
          [THEN conjunct2, THEN conjunct2, THEN conjunct2, THEN conjunct2, THEN conjunct2,
           THEN conjunct2, THEN mp])
  from a b c d e f g show ?thesis by (intro conjI)
qed

section \<open>Further properties\<close>

text \<open>
  The examples of the specification: a pipeline with no workflow is not green; one with a
  passed \<^verbatim>\<open>build\<close> and a failed \<^verbatim>\<open>test\<close> is not green; a \<^verbatim>\<open>build\<close> that failed and
  passed on a rerun, in either order, deduplicates to the passed run and is green; and
  \<^verbatim>\<open>success\<close> next to \<^verbatim>\<open>on_hold\<close> is green.
\<close>

theorem specification_examples:
  "\<not> allWorkflowsPassed [] \<and>
   \<not> allWorkflowsPassed [wf ''1'' ''build'' Success, wf ''2'' ''test'' Failed] \<and>
   uniqueWorkflows [wf ''1'' ''build'' Success, wf ''2'' ''build'' Failed]
     = [wf ''1'' ''build'' Success] \<and>
   allWorkflowsPassed [wf ''1'' ''build'' Success, wf ''2'' ''build'' Failed] \<and>
   uniqueWorkflows [wf ''1'' ''build'' Failed, wf ''2'' ''build'' Success]
     = [wf ''2'' ''build'' Success] \<and>
   allWorkflowsPassed [wf ''1'' ''build'' Success, wf ''2'' ''deploy'' OnHold]"
  by (simp add: allWorkflowsPassed_def successfulWorkflows_def eval_defs)

text \<open>
  The group the regular expression captures is never the empty string, so the test
  \<^verbatim>\<open>if (slugAndBuildNumber)\<close> fails only when there is no match.
\<close>

theorem matched_slug_is_not_empty: "slug_exec buildUrl = Some slug \<Longrightarrow> slug \<noteq> []"
  by (rule slug_not_empty)

theorem matched_slug_is_not_empty_witness:
  "slug_exec ''https://circleci.com/gh/org/repo/123'' = Some ''gh/org/repo'' \<and>
   ''gh/org/repo'' \<noteq> []"
  using matched_slug_is_not_empty [OF slug_example] slug_example by simp

text \<open>
  The deduplicated list has one entry for each name of the input, for every list of
  workflows and every status.
\<close>

theorem dedupe_has_one_entry_per_name:
  "distinct (map name (uniqueWorkflows xs)) \<and>
   set (map name (uniqueWorkflows xs)) = set (map name xs)"
proof
  show "distinct (map name (uniqueWorkflows xs))"
    by (simp only: names_unique distinct_first_occurrences)
  show "set (map name (uniqueWorkflows xs)) = set (map name xs)"
    by (simp only: names_unique set_first_occurrences)
qed

text \<open>
  The priority the code computes for the nine members of the enum, which are the keys
  of the table.
\<close>

theorem status_priority_of_enum_members:
  "priority Success = Number 5 \<and> priority OnHold = Number 4 \<and> priority Running = Number 3 \<and>
   priority NotRun = Number 2 \<and> priority Failed = Number 1 \<and> priority Error = Number 1 \<and>
   priority Failing = Number 1 \<and> priority Canceled = Number 1 \<and>
   priority Unauthorized = Number 0 \<and>
   map fst statusPriority = [Success, OnHold, Running, NotRun, Failed, Error, Failing, Canceled,
     Unauthorized]"
  by (simp add: priority_def statusPriority_get_def statusPriority_def or_zero_def)

text \<open>
  For every list of workflows whose statuses are members of the enum, each entry of the
  deduplicated list has the greatest rank among the input workflows of its name, and is
  the first workflow of the input with that name and that rank. The rank is the one of
  the specification.
\<close>

theorem dedupe_of_enum_statuses_keeps_first_of_maximal_rank:
  assumes "\<forall>w\<in>set xs. status w \<in> set CircleWorkflowStatus_members"
    and "u \<in> set (uniqueWorkflows xs)"
  shows "(\<forall>w\<in>set xs. name w = name u \<longrightarrow> rank (status w) \<le> rank (status u)) \<and>
         List.find (\<lambda>w. name w = name u \<and> rank (status w) = rank (status u)) xs = Some u"
proof -
  have r: "\<forall>w\<in>set xs. ranked (status w)" using assms(1) by (simp add: members_ranked)
  show ?thesis using unique_max [OF r assms(2)] unique_first [OF r assms(2)] by blast
qed

theorem dedupe_of_enum_statuses_keeps_first_of_maximal_rank_witness:
  "uniqueWorkflows
     [wf ''1'' ''a'' Running, wf ''2'' ''b'' Error, wf ''3'' ''a'' OnHold, wf ''4'' ''b'' Failing,
      wf ''5'' ''c'' Unauthorized, wf ''6'' ''a'' Running, wf ''7'' ''c'' NotRun,
      wf ''8'' ''a'' OnHold, wf ''9'' ''d'' Success, wf ''10'' ''d'' Canceled]
     = [wf ''3'' ''a'' OnHold, wf ''2'' ''b'' Error, wf ''7'' ''c'' NotRun, wf ''9'' ''d'' Success] \<and>
   rank (status (wf ''1'' ''a'' Running)) \<le> rank (status (wf ''3'' ''a'' OnHold)) \<and>
   List.find (\<lambda>w. name w = ''a'' \<and> rank (status w) = 4)
     [wf ''1'' ''a'' Running, wf ''2'' ''b'' Error, wf ''3'' ''a'' OnHold, wf ''4'' ''b'' Failing,
      wf ''5'' ''c'' Unauthorized, wf ''6'' ''a'' Running, wf ''7'' ''c'' NotRun,
      wf ''8'' ''a'' OnHold, wf ''9'' ''d'' Success, wf ''10'' ''d'' Canceled]
     = Some (wf ''3'' ''a'' OnHold)"
proof -
  let ?xs = "[wf ''1'' ''a'' Running, wf ''2'' ''b'' Error, wf ''3'' ''a'' OnHold, wf ''4'' ''b'' Failing,
      wf ''5'' ''c'' Unauthorized, wf ''6'' ''a'' Running, wf ''7'' ''c'' NotRun,
      wf ''8'' ''a'' OnHold, wf ''9'' ''d'' Success, wf ''10'' ''d'' Canceled]"
  have u: "uniqueWorkflows ?xs
     = [wf ''3'' ''a'' OnHold, wf ''2'' ''b'' Error, wf ''7'' ''c'' NotRun, wf ''9'' ''d'' Success]"
    by (simp add: eval_defs)
  have m: "\<forall>w\<in>set ?xs. status w \<in> set CircleWorkflowStatus_members"
    by (simp add: wf_def CircleWorkflowStatus_members_def)
  have i: "wf ''3'' ''a'' OnHold \<in> set (uniqueWorkflows ?xs)" unfolding u by simp
  have n: "name (wf ''3'' ''a'' OnHold) = ''a''" "rank (status (wf ''3'' ''a'' OnHold)) = 4"
    "name (wf ''1'' ''a'' Running) = ''a''"
    by (simp_all add: wf_def rank_def)
  note t = dedupe_of_enum_statuses_keeps_first_of_maximal_rank [OF m i]
  have a: "rank (status (wf ''1'' ''a'' Running)) \<le> rank (status (wf ''3'' ''a'' OnHold))"
    using t [THEN conjunct1] n by simp
  have b: "List.find (\<lambda>w. name w = ''a'' \<and> rank (status w) = 4) ?xs = Some (wf ''3'' ''a'' OnHold)"
    using t [THEN conjunct2] unfolding n .
  from u a b show ?thesis by (intro conjI)
qed

text \<open>
  A candidate with status \<^verbatim>\<open>unauthorized\<close> is never preferred to a workflow whose status
  is a member of the enum.
\<close>

theorem unauthorized_is_never_preferred:
  "status c = Unauthorized \<Longrightarrow> status e \<in> set CircleWorkflowStatus_members \<Longrightarrow>
   \<not> shouldPreferWorkflow c e"
proof -
  assume c: "status c = Unauthorized" and e: "status e \<in> set CircleWorkflowStatus_members"
  have "ranked (status c)" and "rank (status c) = 0"
    using c by (simp_all add: members_ranked CircleWorkflowStatus_members_def rank_def)
  then show ?thesis using e by (simp add: prefer_ranked members_ranked)
qed

theorem unauthorized_is_never_preferred_witness:
  "\<not> shouldPreferWorkflow (wf ''1'' ''build'' Unauthorized) (wf ''2'' ''build'' Canceled) \<and>
   \<not> shouldPreferWorkflow (wf ''1'' ''build'' Unauthorized) (wf ''3'' ''build'' Unauthorized)"
proof -
  have s: "status (wf ''1'' ''build'' Unauthorized) = Unauthorized"
    "status (wf ''2'' ''build'' Canceled) \<in> set CircleWorkflowStatus_members"
    "status (wf ''3'' ''build'' Unauthorized) \<in> set CircleWorkflowStatus_members"
    by (simp_all add: wf_def CircleWorkflowStatus_members_def)
  show ?thesis
    using unauthorized_is_never_preferred [OF s(1) s(2)]
      unauthorized_is_never_preferred [OF s(1) s(3)] by simp
qed

end
